theory Spec2Isabelle
  imports Complex_Main
begin

section \<open>Python values and errors\<close>

text \<open>
  The recommendation code of the repository is Python; its floats are modelled as exact
  reals, its exceptions as values of \<open>py_error\<close> in a sum type.
\<close>

datatype py_error = IndexError | ZeroDivisionError | ValueError | NoCandidatesError

section \<open>Top-K randomisation: \<open>_diversity_weighted_random_select\<close>\<close>

text \<open>A candidate is a dictionary of which the selector reads the key \<open>'score'\<close>.\<close>

record candidate =
  name :: string
  score :: real

text \<open>
  \<open>score_range = max_score - min_score if max_score > min_score else 1.0\<close>
\<close>

definition score_range :: "real \<Rightarrow> real \<Rightarrow> real" where
  "score_range max_score min_score =
     (if max_score > min_score then max_score - min_score else 1)"

text \<open>
  The body of the \<open>for\<close> loop: \<open>base_prob + score_bonus\<close> for one candidate of a pool
  of \<open>n\<close> candidates.
\<close>

definition base_prob :: "nat \<Rightarrow> real" where
  "base_prob n = (1 / 10) / real n"

definition score_bonus :: "nat \<Rightarrow> real \<Rightarrow> real \<Rightarrow> real \<Rightarrow> real" where
  "score_bonus n min_score rng s = (9 / 10) * ((s - min_score) / rng) / real n"

text \<open>
  The list \<open>probabilities\<close> before normalisation. \<open>top_k_candidates[0]\<close> and
  \<open>top_k_candidates[-1]\<close> raise \<open>IndexError\<close> on an empty list.
\<close>

definition unnormalized_probabilities :: "candidate list \<Rightarrow> py_error + real list" where
  "unnormalized_probabilities top_k_candidates =
     (case top_k_candidates of
        [] \<Rightarrow> Inl IndexError
      | c0 # _ \<Rightarrow>
          (let max_score = score c0;
               min_score = score (last top_k_candidates);
               rng = score_range max_score min_score;
               n = length top_k_candidates
           in Inr (map (\<lambda>c. base_prob n + score_bonus n min_score rng (score c))
                     top_k_candidates)))"

text \<open>
  Normalisation: \<open>total_prob = sum(probabilities)\<close>,
  \<open>probabilities = [p / total_prob for p in probabilities]\<close>. A float division by zero
  raises \<open>ZeroDivisionError\<close>.
\<close>

definition normalize :: "real list \<Rightarrow> py_error + real list" where
  "normalize probabilities =
     (let total_prob = sum_list probabilities
      in if probabilities \<noteq> [] \<and> total_prob = 0 then Inl ZeroDivisionError
         else Inr (map (\<lambda>p. p / total_prob) probabilities))"

definition selection_probabilities :: "candidate list \<Rightarrow> py_error + real list" where
  "selection_probabilities top_k_candidates =
     (case unnormalized_probabilities top_k_candidates of
        Inl e \<Rightarrow> Inl e
      | Inr probabilities \<Rightarrow> normalize probabilities)"

subsection \<open>\<open>random.choices\<close>\<close>

text \<open>
  The standard library's \<open>random.choices(population, weights, k)\<close>: the cumulative
  weights, their total, and for each of the \<open>k\<close> draws a binary search
  (\<open>bisect_right\<close>) of \<open>random() * total\<close>. The random source is the sequence of
  values that the calls of \<open>random()\<close> return.
\<close>

fun accumulate_from :: "real \<Rightarrow> real list \<Rightarrow> real list" where
  "accumulate_from acc [] = []"
| "accumulate_from acc (w # ws) = (acc + w) # accumulate_from (acc + w) ws"

definition accumulate :: "real list \<Rightarrow> real list" where
  "accumulate ws = accumulate_from 0 ws"

function bisect_right :: "real list \<Rightarrow> real \<Rightarrow> nat \<Rightarrow> nat \<Rightarrow> nat" where
  "bisect_right a x lo hi =
     (if lo < hi
      then (let mid = (lo + hi) div 2
            in if x < a ! mid then bisect_right a x lo mid
               else bisect_right a x (mid + 1) hi)
      else lo)"
  by pat_completeness auto
termination
  by (relation "measure (\<lambda>(a, x, lo, hi). hi - lo)") auto

declare bisect_right.simps [simp del]

definition choices :: "'a list \<Rightarrow> real list \<Rightarrow> int \<Rightarrow> (nat \<Rightarrow> real) \<Rightarrow> py_error + 'a list" where
  "choices population weights k random =
     (let n = length population;
          cum_weights = accumulate weights
      in if length cum_weights \<noteq> n then Inl ValueError
         else if cum_weights = [] then Inl IndexError
         else (let total = last cum_weights
               in if total \<le> 0 then Inl ValueError
                  else Inr (map (\<lambda>j. population !
                                  bisect_right cum_weights (random j * total) 0 (n - 1))
                              [0..<nat k])))"

text \<open>
  The selector itself. A pool of at most \<open>k\<close> candidates is returned as it is, without
  a draw.
\<close>

definition diversity_weighted_random_select ::
    "candidate list \<Rightarrow> int \<Rightarrow> (nat \<Rightarrow> real) \<Rightarrow> py_error + candidate list" where
  "diversity_weighted_random_select top_k_candidates k random =
     (if int (length top_k_candidates) \<le> k then Inr top_k_candidates
      else (case selection_probabilities top_k_candidates of
              Inl e \<Rightarrow> Inl e
            | Inr probabilities \<Rightarrow> choices top_k_candidates probabilities k random))"

text \<open>
  The formula of the specification, in its own words:
  \<open>p_i = \<epsilon>/K + (1 - \<epsilon>) \<sqdot> (score_i - min_score) / \<Sum>_j (score_j - min_score)\<close>.
\<close>

definition spec_selection_probability :: "real \<Rightarrow> candidate list \<Rightarrow> nat \<Rightarrow> real" where
  "spec_selection_probability eps pool i =
     (let min_score = Min (set (map score pool))
      in eps / real (length pool)
         + (1 - eps) * (score (pool ! i) - min_score)
             / (\<Sum>c\<leftarrow>pool. score c - min_score))"

text \<open>The normalised score of a candidate within its pool, as the loop computes it.\<close>

definition normalized_score :: "candidate list \<Rightarrow> candidate \<Rightarrow> real" where
  "normalized_score pool c =
     (score c - score (last pool)) / score_range (score (hd pool)) (score (last pool))"

text \<open>The weight of a candidate before normalisation, up to the common factor \<open>1/n\<close>.\<close>

definition pool_weight :: "candidate list \<Rightarrow> candidate \<Rightarrow> real" where
  "pool_weight pool c = 1 / 10 + 9 / 10 * normalized_score pool c"

section \<open>Anti-universality penalty: \<open>calculate_universality_penalty\<close>\<close>

text \<open>
  A catalogue entry of \<open>cocktails.json\<close>. The penalty reads the key \<open>'Need'\<close> with
  \<open>cocktail.get('Need', [])\<close>, so the key may be absent. \<open>Recipe\<close> and
  \<open>Description\<close> are never examined by the engine and are left to the record's extension.
\<close>

record cocktail =
  Name :: string
  Category :: string
  Energy :: real
  Tension :: real
  Control :: real
  Need :: "string list option"

definition cocktail_needs :: "cocktail \<Rightarrow> string list" where
  "cocktail_needs c = (case Need c of None \<Rightarrow> [] | Some needs \<Rightarrow> needs)"

text \<open>\<open>str.lower()\<close> on ASCII tags.\<close>

definition lower_char :: "char \<Rightarrow> char" where
  "lower_char c =
     (case map_of (zip ''ABCDEFGHIJKLMNOPQRSTUVWXYZ'' ''abcdefghijklmnopqrstuvwxyz'') c of
        Some d \<Rightarrow> d
      | None \<Rightarrow> c)"

definition lower :: "string \<Rightarrow> string" where
  "lower s = map lower_char s"

definition COMMON_NEEDS :: "string list" where
  "COMMON_NEEDS = [''comfort'', ''relaxation'', ''casual fun'', ''ease'', ''approachability'']"

text \<open>\<open>common_count = sum(1 for need in needs if need.lower() in COMMON_NEEDS)\<close>\<close>

definition common_count :: "cocktail \<Rightarrow> nat" where
  "common_count c =
     length (filter (\<lambda>need. lower need \<in> set COMMON_NEEDS) (cocktail_needs c))"

definition calculate_universality_penalty :: "cocktail \<Rightarrow> real" where
  "calculate_universality_penalty c =
     (if common_count c \<ge> 2 then 75 / 100
      else if common_count c = 1 then 9 / 10
      else 1)"

section \<open>Recommendation history\<close>

text \<open>
  \<open>self._recommendation_history = {}\<close>, a dictionary from session identifiers to lists of
  cocktail names.
\<close>

type_synonym recommendation_history = "string \<rightharpoonup> string list"

text \<open>
  The Python slice \<open>xs[-limit:]\<close>: a negative start counts from the end and is clamped
  at the front, a positive one is clamped at the end, and \<open>-0\<close> is \<open>0\<close>.
\<close>

definition slice_from_minus :: "'a list \<Rightarrow> int \<Rightarrow> 'a list" where
  "slice_from_minus xs limit =
     (let n = int (length xs);
          start = - limit;
          start' = (if start < 0 then max (start + n) 0 else min start n)
      in drop (nat start') xs)"

definition get_recent_recommendations :: "recommendation_history \<Rightarrow> string \<Rightarrow> int \<Rightarrow> string list" where
  "get_recent_recommendations h session_id limit =
     slice_from_minus (case h session_id of None \<Rightarrow> [] | Some names \<Rightarrow> names) limit"

text \<open>The stored list of a session; a session never seen has the empty history.\<close>

definition session_history :: "recommendation_history \<Rightarrow> string \<Rightarrow> string list" where
  "session_history h session_id = (case h session_id of None \<Rightarrow> [] | Some names \<Rightarrow> names)"

text \<open>
  Modelled from the spec: the eviction of the session history is missing from the source
  files (only the getter above is there). The specification: entries are evicted from the
  front once the length exceeds \<open>H\<close>.
\<close>

fun evict_front :: "nat \<Rightarrow> 'a list \<Rightarrow> 'a list" where
  "evict_front H [] = []"
| "evict_front H (x # xs) = (if length (x # xs) > H then evict_front H xs else x # xs)"

text \<open>
  Modelled from the spec: the append to the session history is missing from the source
  files. The specification: the history is created on the first request of a session, and
  after a selection the chosen item's name is appended, most recent last, subject to the
  bound.
\<close>

definition record_selection :: "nat \<Rightarrow> recommendation_history \<Rightarrow> string \<Rightarrow> string \<Rightarrow> recommendation_history" where
  "record_selection H h session_id chosen =
     h(session_id \<mapsto> evict_front H (session_history h session_id @ [chosen]))"

text \<open>
  Modelled from the spec: a run of selections in one session, each recorded by
  \<open>record_selection\<close>, whose code is missing from the source files.
\<close>

fun record_selections :: "nat \<Rightarrow> recommendation_history \<Rightarrow> string \<Rightarrow> string list \<Rightarrow> recommendation_history" where
  "record_selections H h session_id [] = h"
| "record_selections H h session_id (chosen # rest) =
     record_selections H (record_selection H h session_id chosen) session_id rest"

section \<open>Recency penalty\<close>

text \<open>
  Modelled from the spec: the recency penalty has no code in the source files, which only
  say that cocktails already recommended in the session are marked down. The specification:
  look up the item's most recent position \<open>p\<close> in the session's history, counted from
  the end (1 = just recommended).
\<close>

fun position_from :: "nat \<Rightarrow> 'a \<Rightarrow> 'a list \<Rightarrow> nat option" where
  "position_from p x [] = None"
| "position_from p x (y # ys) = (if x = y then Some p else position_from (Suc p) x ys)"

definition most_recent_position :: "string list \<Rightarrow> string \<Rightarrow> nat option" where
  "most_recent_position history item = position_from 1 item (rev history)"

text \<open>
  Modelled from the spec: the factor at position \<open>p\<close>, missing from the source files, is
  \<open>1 - 0.5 \<sqdot> (H - p + 1) / H\<close>, floor \<open>0.5\<close>.
\<close>

definition recency_factor_at :: "nat \<Rightarrow> nat \<Rightarrow> real" where
  "recency_factor_at H p = max (1 / 2) (1 - (1 / 2) * (real H - real p + 1) / real H)"

text \<open>
  Modelled from the spec: the recency penalty factor, missing from the source files, is 1
  if the item is absent from the history and the factor at its most recent position
  otherwise.
\<close>

definition recency_factor :: "nat \<Rightarrow> string list \<Rightarrow> string \<Rightarrow> real" where
  "recency_factor H history item =
     (case most_recent_position history item of
        None \<Rightarrow> 1
      | Some p \<Rightarrow> recency_factor_at H p)"

section \<open>Scoring engine\<close>

text \<open>
  Modelled from the spec: the matching engine of \<open>cocktail_agent.py\<close> is missing from the
  source files. The specification's emotional profile: three dimensions, conceptually in
  \<open>[1,5]\<close>, and a set of need tags.
\<close>

record profile =
  energy :: real
  tension :: real
  control :: real
  needs :: "string set"

text \<open>
  Modelled from the spec: the configuration surface \<open>{w_dim, w_need, K, \<epsilon>, H,
  dimension_bucket_thresholds}\<close> with its stated defaults; the common need tags are the
  constant \<open>COMMON_NEEDS\<close> of the source.
\<close>

record config =
  w_dim :: real
  w_need :: real
  cfg_K :: nat
  cfg_eps :: real
  cfg_H :: nat
  low_threshold :: real
  high_threshold :: real

definition default_config :: config where
  "default_config =
     \<lparr>w_dim = 6 / 10, w_need = 15 / 10, cfg_K = 10, cfg_eps = 1 / 10, cfg_H = 10,
      low_threshold = 233 / 100, high_threshold = 367 / 100\<rparr>"

text \<open>A division as Python evaluates it: a zero divisor raises.\<close>

definition checked_div :: "real \<Rightarrow> real \<Rightarrow> py_error + real" where
  "checked_div a b = (if b = 0 then Inl ZeroDivisionError else Inr (a / b))"

text \<open>
  Modelled from the spec: for each of energy, tension and control the squared difference
  \<open>(profile.d - item.d)\<^sup>2\<close>, summed (the code is missing from the source files).
\<close>

definition sum_of_squares :: "profile \<Rightarrow> cocktail \<Rightarrow> real" where
  "sum_of_squares p c =
     (energy p - Energy c)\<^sup>2 + (tension p - Tension c)\<^sup>2 + (control p - Control c)\<^sup>2"

text \<open>
  Modelled from the spec: \<open>dimension_score = 1 / (1 + sum_of_squares)\<close> (the code is
  missing from the source files).
\<close>

definition dimension_score :: "profile \<Rightarrow> cocktail \<Rightarrow> py_error + real" where
  "dimension_score p c = checked_div 1 (1 + sum_of_squares p c)"

text \<open>
  Modelled from the spec: \<open>need_score = |profile.needs \<inter> item.needs| / max(1, |item.needs|)\<close>
  (the code is missing from the source files).
\<close>

definition need_score :: "profile \<Rightarrow> cocktail \<Rightarrow> py_error + real" where
  "need_score p c =
     checked_div (real (card (needs p \<inter> set (cocktail_needs c))))
                 (real (max 1 (card (set (cocktail_needs c)))))"

text \<open>
  Modelled from the spec: \<open>raw_score = w_dim \<sqdot> dimension_score + w_need \<sqdot> need_score\<close>,
  the result of \<open>score(profile, item)\<close> (the code is missing from the source files).
\<close>

definition raw_score :: "config \<Rightarrow> profile \<Rightarrow> cocktail \<Rightarrow> py_error + real" where
  "raw_score cfg p c =
     (case dimension_score p c of
        Inl e \<Rightarrow> Inl e
      | Inr d \<Rightarrow>
          (case need_score p c of
             Inl e \<Rightarrow> Inl e
           | Inr n \<Rightarrow> Inr (w_dim cfg * d + w_need cfg * n)))"

section \<open>Result card: \<open>ResultCard.tsx\<close>\<close>

text \<open>
  The fields \<open>presentation\<close> and \<open>layout\<close> of a \<open>ProcessingResult\<close> have the type
  \<open>any\<close>: they hold whatever the JSON response held, or are absent. Numbers are modelled
  as reals (JSON has no NaN), objects as their lists of properties; arrays count as objects.
\<close>

datatype js_value =
    JUndefined
  | JNull
  | JBool bool
  | JNumber real
  | JString string
  | JObject "(string \<times> js_value) list"

text \<open>JavaScript's truthiness, which \<open>||\<close> and \<open>!\<close> test.\<close>

fun truthy :: "js_value \<Rightarrow> bool" where
  "truthy JUndefined = False"
| "truthy JNull = False"
| "truthy (JBool b) = b"
| "truthy (JNumber x) = (x \<noteq> 0)"
| "truthy (JString s) = (s \<noteq> [])"
| "truthy (JObject props) = True"

text \<open>\<open>a || b\<close> evaluates to \<open>a\<close> if it is truthy and to \<open>b\<close> otherwise.\<close>

definition js_or :: "js_value \<Rightarrow> js_value \<Rightarrow> js_value" where
  "js_or a b = (if truthy a then a else b)"

text \<open>
  \<open>v?.key\<close>: \<open>undefined\<close> if \<open>v\<close> is \<open>null\<close> or \<open>undefined\<close>, the property
  otherwise; a property that an object does not have, and any of the four keys read here on
  a primitive value, is \<open>undefined\<close>.
\<close>

fun optional_get :: "js_value \<Rightarrow> string \<Rightarrow> js_value" where
  "optional_get (JObject props) key =
     (case map_of props key of None \<Rightarrow> JUndefined | Some v \<Rightarrow> v)"
| "optional_get v key = JUndefined"

record processing_result =
  presentation :: js_value
  layout :: js_value

definition cardImageUrl :: "processing_result \<Rightarrow> js_value" where
  "cardImageUrl result =
     js_or (js_or (js_or (js_or (optional_get (layout result) ''final_card_url'')
                                (optional_get (layout result) ''ink_style_image_url''))
                         (optional_get (presentation result) ''final_presentation_image_url''))
                  (optional_get (presentation result) ''cocktail_image_url''))
           (JString [])"

text \<open>The download button's \<open>disabled={isDownloading || !cardImageUrl}\<close>.\<close>

definition download_disabled :: "bool \<Rightarrow> processing_result \<Rightarrow> bool" where
  "download_disabled isDownloading result = (isDownloading \<or> \<not> truthy (cardImageUrl result))"

text \<open>The two guards at the head of \<open>handleDownload\<close>, and what follows them.\<close>

datatype download_action = AlertNotReady | IgnoreClick | FetchImage js_value

definition handleDownload :: "bool \<Rightarrow> processing_result \<Rightarrow> download_action" where
  "handleDownload isDownloading result =
     (if \<not> truthy (cardImageUrl result) then AlertNotReady
      else if isDownloading then IgnoreClick
      else FetchImage (cardImageUrl result))"

section \<open>Voice and text input: \<open>VoiceInputScreen\<close>\<close>

datatype input_mode = Voice | Text

datatype blob = Blob "nat list"

text \<open>
  A JavaScript string is a sequence of UTF-16 code units, here natural numbers;
  \<open>code_units\<close> gives the code units of an ASCII literal.
\<close>

type_synonym js_string = "nat list"

definition code_units :: "string \<Rightarrow> js_string" where
  "code_units s = map of_char s"

text \<open>
  The state that one render of the component sees: the recorder hook's \<open>isRecording\<close> and
  \<open>audioBlob\<close> (a \<open>Blob\<close> or \<open>null\<close>) and the component's own \<open>isUploading\<close>,
  \<open>inputMode\<close> and \<open>textInput\<close>. The button's \<open>disabled\<close> and the handler it calls are
  computed from the same render.
\<close>

record voice_input_state =
  isRecording :: bool
  audioBlob :: "blob option"
  isUploading :: bool
  inputMode :: input_mode
  textInput :: js_string

text \<open>
  \<open>String.prototype.trim\<close> strips the white space and the line terminators of ECMAScript
  from both ends: TAB, LF, VT, FF, CR, SPACE, NO-BREAK SPACE (U+00A0), the other space
  separators (U+1680, U+2000 to U+200A, U+202F, U+205F, U+3000), LINE SEPARATOR (U+2028),
  PARAGRAPH SEPARATOR (U+2029) and the byte order mark (U+FEFF). Each is one code unit.
\<close>

definition is_whitespace :: "nat \<Rightarrow> bool" where
  "is_whitespace c =
     (c \<in> set [0x09, 0x0A, 0x0B, 0x0C, 0x0D, 0x20, 0xA0, 0x1680, 0x2028, 0x2029, 0x202F,
               0x205F, 0x3000, 0xFEFF]
      \<or> (0x2000 \<le> c \<and> c \<le> 0x200A))"

definition trim :: "js_string \<Rightarrow> js_string" where
  "trim s = rev (dropWhile is_whitespace (rev (dropWhile is_whitespace s)))"

text \<open>
  \<open>canSubmit\<close>, as the truth value that \<open>!canSubmit\<close> tests: a \<open>Blob\<close> is an object
  and so truthy, \<open>null\<close> is not.
\<close>

definition canSubmit :: "voice_input_state \<Rightarrow> bool" where
  "canSubmit s =
     (if inputMode s = Voice then audioBlob s \<noteq> None \<and> \<not> isRecording s
      else length (trim (textInput s)) > 0)"

text \<open>The submit button's \<open>disabled={!canSubmit || isUploading || isRecording}\<close>.\<close>

definition submit_disabled :: "voice_input_state \<Rightarrow> bool" where
  "submit_disabled s = (\<not> canSubmit s \<or> isUploading s \<or> isRecording s)"

text \<open>
  \<open>handleSubmit\<close> up to its first request: the two validation failures, each an alert and
  a return, or the request sent (the upload of the recording as a file, or the text as it
  was typed).
\<close>

datatype submit_action =
    AlertRecordFirst
  | AlertEnterStory
  | UploadAudio blob
  | ProcessStoryText js_string

definition handleSubmit :: "voice_input_state \<Rightarrow> submit_action" where
  "handleSubmit s =
     (if inputMode s = Voice
      then (case audioBlob s of None \<Rightarrow> AlertRecordFirst | Some b \<Rightarrow> UploadAudio b)
      else (if trim (textInput s) = [] then AlertEnterStory
            else ProcessStoryText (textInput s)))"

section \<open>Properties of the selector\<close>

lemma unnormalized_probabilities_eq:
  assumes "cs \<noteq> []"
  shows "unnormalized_probabilities cs =
     Inr (map (\<lambda>c. pool_weight cs c / real (length cs)) cs)"
  using assms
  by (cases cs) (simp_all add: unnormalized_probabilities_def Let_def base_prob_def
      score_bonus_def normalized_score_def pool_weight_def add_divide_distrib)

lemma sum_list_map_divide:
  "(\<Sum>x\<leftarrow>xs. f x / (d::real)) = (\<Sum>x\<leftarrow>xs. f x) / d"
  by (induction xs) (simp_all add: add_divide_distrib)

lemma normalized_score_bounds:
  assumes "score (last cs) \<le> score c" "score c \<le> score (hd cs)"
  shows "0 \<le> normalized_score cs c \<and> normalized_score cs c \<le> 1"
  using assms
  by (auto simp: normalized_score_def score_range_def divide_le_eq)

lemma sum_list_bounds:
  assumes "\<forall>x\<in>set xs. (a::real) \<le> f x \<and> f x \<le> b"
  shows "a * real (length xs) \<le> (\<Sum>x\<leftarrow>xs. f x) \<and> (\<Sum>x\<leftarrow>xs. f x) \<le> b * real (length xs)"
  using assms by (induction xs) (auto simp: algebra_simps)

lemma pool_weight_bounds:
  assumes "score (last cs) \<le> score c" "score c \<le> score (hd cs)"
  shows "1 / 10 \<le> pool_weight cs c \<and> pool_weight cs c \<le> 1"
  using normalized_score_bounds [OF assms] by (simp add: pool_weight_def)

text \<open>
  What the code computes: the common factor \<open>1/n\<close> cancels in the normalisation, and
  each probability is the candidate's weight over the total weight of the pool.
\<close>

lemma selection_probabilities_eq:
  assumes ne: "cs \<noteq> []" and tot: "(\<Sum>c\<leftarrow>cs. pool_weight cs c) \<noteq> 0"
  shows "selection_probabilities cs =
     Inr (map (\<lambda>c. pool_weight cs c / (\<Sum>c\<leftarrow>cs. pool_weight cs c)) cs)"
proof -
  let ?K = "real (length cs)"
  have K: "?K \<noteq> 0" using ne by simp
  have u: "unnormalized_probabilities cs = Inr (map (\<lambda>c. pool_weight cs c / ?K) cs)"
    by (rule unnormalized_probabilities_eq [OF ne])
  have s: "sum_list (map (\<lambda>c. pool_weight cs c / ?K) cs) = (\<Sum>c\<leftarrow>cs. pool_weight cs c) / ?K"
    by (rule sum_list_map_divide)
  have nz: "(\<Sum>c\<leftarrow>cs. pool_weight cs c) / ?K \<noteq> 0" using K tot by simp
  have "normalize (map (\<lambda>c. pool_weight cs c / ?K) cs)
        = Inr (map (\<lambda>p. p / ((\<Sum>c\<leftarrow>cs. pool_weight cs c) / ?K))
                 (map (\<lambda>c. pool_weight cs c / ?K) cs))"
    unfolding normalize_def Let_def s using nz by simp
  also have "\<dots> = Inr (map (\<lambda>c. pool_weight cs c / (\<Sum>c\<leftarrow>cs. pool_weight cs c)) cs)"
    using K by (simp add: o_def)
  finally show ?thesis by (simp add: selection_probabilities_def u)
qed

text \<open>
  The binary search of \<open>random.choices\<close> on cumulative weights: on a sorted list it finds
  the first entry above the value searched.
\<close>

lemma bisect_right_sorted:
  assumes "sorted a" "hi < length a" "lo \<le> hi" "\<forall>j<lo. a ! j \<le> x" "x < a ! hi"
  shows "lo \<le> bisect_right a x lo hi \<and> bisect_right a x lo hi \<le> hi
    \<and> (\<forall>j<bisect_right a x lo hi. a ! j \<le> x) \<and> x < a ! bisect_right a x lo hi"
  using assms
proof (induction a x lo hi rule: bisect_right.induct)
  case (1 a x lo hi)
  show ?case
  proof (cases "lo < hi")
    case False
    with "1.prems" have "lo = hi" by simp
    then show ?thesis
      using "1.prems" by (simp add: bisect_right.simps [of a x hi hi])
  next
    case True
    define mid where "mid = (lo + hi) div 2"
    have m: "lo \<le> mid" "mid < hi" using True by (simp_all add: mid_def)
    show ?thesis
    proof (cases "x < a ! mid")
      case lt: True
      have eq: "bisect_right a x lo hi = bisect_right a x lo mid"
        using True lt by (subst bisect_right.simps) (simp add: mid_def Let_def)
      have "lo \<le> bisect_right a x lo mid \<and> bisect_right a x lo mid \<le> mid
        \<and> (\<forall>j<bisect_right a x lo mid. a ! j \<le> x) \<and> x < a ! bisect_right a x lo mid"
        using "1.IH"(1) [OF True mid_def lt]
          "1.prems" m lt
        by simp
      then show ?thesis using m by (simp add: eq)
    next
      case ge: False
      have eq: "bisect_right a x lo hi = bisect_right a x (mid + 1) hi"
        using True ge by (subst bisect_right.simps) (simp add: mid_def Let_def)
      have below: "\<forall>j<mid + 1. a ! j \<le> x"
      proof (intro allI impI)
        fix j assume "j < mid + 1"
        then have "j \<le> mid" by simp
        moreover have "mid < length a" using m "1.prems" by simp
        ultimately have "a ! j \<le> a ! mid" using "1.prems"(1) by (simp add: sorted_nth_mono)
        then show "a ! j \<le> x" using ge by simp
      qed
      have "mid + 1 \<le> bisect_right a x (mid + 1) hi \<and> bisect_right a x (mid + 1) hi \<le> hi
        \<and> (\<forall>j<bisect_right a x (mid + 1) hi. a ! j \<le> x) \<and> x < a ! bisect_right a x (mid + 1) hi"
        using "1.IH"(2) [OF True mid_def ge]
          "1.prems" m below
        by simp
      then show ?thesis using m by (simp add: eq)
    qed
  qed
qed

lemma length_accumulate_from: "length (accumulate_from acc ws) = length ws"
  by (induction ws arbitrary: acc) simp_all

lemma accumulate_from_nth:
  "i < length ws \<Longrightarrow> accumulate_from acc ws ! i = acc + sum_list (take (Suc i) ws)"
proof (induction ws arbitrary: acc i)
  case Nil
  then show ?case by simp
next
  case (Cons w ws)
  then show ?case by (cases i) simp_all
qed

lemma sum_list_take_mono:
  assumes "\<forall>w\<in>set ws. (0::real) \<le> w" "i \<le> j"
  shows "sum_list (take i ws) \<le> sum_list (take j ws)"
proof -
  have "take j ws = take i ws @ take (j - i) (drop i ws)"
    using assms(2) by (metis le_add_diff_inverse take_add)
  moreover have "0 \<le> sum_list (take (j - i) (drop i ws))"
    using assms(1) by (intro sum_list_nonneg) (auto dest: in_set_takeD in_set_dropD)
  ultimately show ?thesis by simp
qed

lemma sorted_accumulate:
  assumes "\<forall>w\<in>set ws. 0 \<le> w"
  shows "sorted (accumulate ws)"
  unfolding sorted_iff_nth_mono accumulate_def
proof (intro allI impI)
  fix i j assume "i \<le> j" "j < length (accumulate_from 0 ws)"
  then have j: "j < length ws" and i: "i < length ws" by (simp_all add: length_accumulate_from)
  have "sum_list (take (Suc i) ws) \<le> sum_list (take (Suc j) ws)"
    using assms \<open>i \<le> j\<close> by (intro sum_list_take_mono) simp_all
  then show "accumulate_from 0 ws ! i \<le> accumulate_from 0 ws ! j"
    using i j by (simp add: accumulate_from_nth)
qed

lemma last_accumulate:
  assumes "ws \<noteq> []"
  shows "last (accumulate ws) = sum_list ws"
proof -
  have ne: "accumulate ws \<noteq> []"
    using assms length_accumulate_from [of 0 ws] by (auto simp: accumulate_def)
  have "last (accumulate ws) = accumulate ws ! (length ws - 1)"
    using ne by (simp add: last_conv_nth accumulate_def length_accumulate_from)
  also have "\<dots> = sum_list (take (Suc (length ws - 1)) ws)"
    using assms by (simp add: accumulate_def accumulate_from_nth)
  also have "\<dots> = sum_list ws" using assms by simp
  finally show ?thesis .
qed

text \<open>
  One draw of \<open>random.choices\<close>: with non-negative weights of positive total and a random
  number \<open>u\<close> in \<open>[0, 1)\<close>, the element drawn is the one whose interval of cumulative
  weights contains \<open>u \<sqdot> total\<close>; the interval of element \<open>i\<close> has the length of its weight.
\<close>

lemma choices_single_draw:
  assumes len: "length ws = length population" and ne: "population \<noteq> []"
    and nonneg: "\<forall>w\<in>set ws. 0 \<le> w" and pos: "0 < sum_list ws"
    and u: "0 \<le> random 0" "random 0 < 1"
  shows "\<exists>i<length population.
           choices population ws 1 random = Inr [population ! i]
           \<and> sum_list (take i ws) \<le> random 0 * sum_list ws
           \<and> random 0 * sum_list ws < sum_list (take (Suc i) ws)"
proof -
  let ?cum = "accumulate ws"
  let ?n = "length population"
  let ?x = "random 0 * sum_list ws"
  have wne: "ws \<noteq> []" using len ne by auto
  have lc: "length ?cum = ?n" by (simp add: accumulate_def length_accumulate_from len)
  have cne: "?cum \<noteq> []" using lc ne by auto
  have tot: "last ?cum = sum_list ws" by (rule last_accumulate [OF wne])
  have nth: "?cum ! i = sum_list (take (Suc i) ws)" if "i < ?n" for i
    using that len by (simp add: accumulate_def accumulate_from_nth)
  have npos: "0 < ?n" using ne by simp
  have hi: "?n - 1 < length ?cum" using lc npos by arith
  have top: "?x < ?cum ! (?n - 1)"
  proof -
    have "?cum ! (?n - 1) = sum_list ws"
      using nth [of "?n - 1"] npos len by simp
    moreover have "?x < 1 * sum_list ws"
      using u(2) pos by (intro mult_strict_right_mono) simp_all
    ultimately show ?thesis by simp
  qed
  define r where "r = bisect_right ?cum ?x 0 (?n - 1)"
  have lo0: "(0::nat) \<le> ?n - 1" and none: "\<forall>j<0::nat. ?cum ! j \<le> ?x" by simp_all
  from bisect_right_sorted [OF sorted_accumulate [OF nonneg] hi lo0 none top]
  have b: "r \<le> ?n - 1" "\<forall>j<r. ?cum ! j \<le> ?x" "?x < ?cum ! r"
    by (simp_all add: r_def)
  have rn: "r < ?n" using b(1) npos by arith
  have lower: "sum_list (take r ws) \<le> ?x"
  proof (cases r)
    case 0
    then show ?thesis using u(1) pos by simp
  next
    case (Suc r')
    then have "?cum ! r' \<le> ?x" using b(2) by simp
    moreover have "r' < ?n" using Suc rn by simp
    ultimately show ?thesis using nth [of r'] Suc by simp
  qed
  have upper: "?x < sum_list (take (Suc r) ws)" using b(3) nth [OF rn] by simp
  have "choices population ws 1 random = Inr [population ! r]"
    using lc cne pos by (simp add: choices_def Let_def tot r_def)
  then show ?thesis using rn lower upper by blast
qed

text \<open>
  Claim C1, as amended. For a pool of \<open>K \<ge> 1\<close> candidates ranked by score (no score
  above the first one's or below the last one's), the selector computes the probabilities
  \<open>p_i = (0.1 + 0.9 \<sqdot> n_i) / \<Sum>_j (0.1 + 0.9 \<sqdot> n_j)\<close>, where
  \<open>n_i = (score_i - min_score) / (max_score - min_score)\<close> (the divisor is 1 when all
  scores are equal): the scores are normalised by the score range of the pool, not by the
  sum of the score gaps. The probabilities sum to 1, each is at least \<open>0.1 / K\<close>, and they
  are the weights of the draw: a single draw from a pool of more than one candidate returns
  candidate \<open>i\<close> when the random number lies in the interval from
  \<open>p_0 + \<dots> + p_(i-1)\<close> to \<open>p_0 + \<dots> + p_i\<close>, whose length is \<open>p_i\<close>.
\<close>

theorem selector_probability_formula:
  assumes ne: "cs \<noteq> []"
    and ranked: "\<forall>c\<in>set cs. score (last cs) \<le> score c \<and> score c \<le> score (hd cs)"
  shows "\<exists>ps. selection_probabilities cs = Inr ps \<and> length ps = length cs \<and> sum_list ps = 1 \<and>
     (\<forall>i<length cs.
        ps ! i = (1 / 10 + 9 / 10 * normalized_score cs (cs ! i))
                   / (\<Sum>c\<leftarrow>cs. 1 / 10 + 9 / 10 * normalized_score cs c) \<and>
        (1 / 10) / real (length cs) \<le> ps ! i) \<and>
     (\<forall>k random. int (length cs) > k \<longrightarrow>
        diversity_weighted_random_select cs k random = choices cs ps k random) \<and>
     (\<forall>random. 1 < length cs \<and> 0 \<le> random 0 \<and> random 0 < 1 \<longrightarrow>
        (\<exists>i<length cs. diversity_weighted_random_select cs 1 random = Inr [cs ! i]
           \<and> sum_list (take i ps) \<le> random 0 \<and> random 0 < sum_list (take (Suc i) ps)))"
proof -
  let ?K = "real (length cs)"
  let ?T = "\<Sum>c\<leftarrow>cs. pool_weight cs c"
  let ?ps = "map (\<lambda>c. pool_weight cs c / ?T) cs"
  have K: "0 < ?K" using ne by simp
  have b: "\<forall>c\<in>set cs. 1 / 10 \<le> pool_weight cs c \<and> pool_weight cs c \<le> 1"
    using ranked pool_weight_bounds by blast
  from sum_list_bounds [OF b] have T: "1 / 10 * ?K \<le> ?T" "?T \<le> ?K" by simp_all
  have Tpos: "0 < ?T" using T(1) K by linarith
  have eq: "selection_probabilities cs = Inr ?ps"
    using selection_probabilities_eq [OF ne] Tpos by simp
  have sum1: "sum_list ?ps = 1"
    using Tpos by (simp add: sum_list_map_divide)
  have each: "(1 / 10) / ?K \<le> ?ps ! i" if "i < length cs" for i
  proof -
    have w: "1 / 10 \<le> pool_weight cs (cs ! i)" using b that by simp
    have "(1 / 10) / ?K \<le> (1 / 10) / ?T"
      using T(2) Tpos by (simp add: frac_le)
    also have "\<dots> \<le> pool_weight cs (cs ! i) / ?T"
      by (rule divide_right_mono [OF w less_imp_le [OF Tpos]])
    finally show ?thesis using that by simp
  qed
  show ?thesis
  proof (intro exI conjI)
    show "selection_probabilities cs = Inr ?ps" by (rule eq)
    show "length ?ps = length cs" by simp
    show "sum_list ?ps = 1" by (rule sum1)
    show "\<forall>i<length cs.
        ?ps ! i = (1 / 10 + 9 / 10 * normalized_score cs (cs ! i))
                   / (\<Sum>c\<leftarrow>cs. 1 / 10 + 9 / 10 * normalized_score cs c) \<and>
        (1 / 10) / real (length cs) \<le> ?ps ! i"
      using each by (simp add: pool_weight_def)
    show "\<forall>k random. int (length cs) > k \<longrightarrow>
        diversity_weighted_random_select cs k random = choices cs ?ps k random"
      by (simp add: diversity_weighted_random_select_def eq)
    show "\<forall>random. 1 < length cs \<and> 0 \<le> random 0 \<and> random 0 < 1 \<longrightarrow>
        (\<exists>i<length cs. diversity_weighted_random_select cs 1 random = Inr [cs ! i]
           \<and> sum_list (take i ?ps) \<le> random 0 \<and> random 0 < sum_list (take (Suc i) ?ps))"
    proof (intro allI impI)
      fix random :: "nat \<Rightarrow> real"
      assume h: "1 < length cs \<and> 0 \<le> random 0 \<and> random 0 < 1"
      have sel: "diversity_weighted_random_select cs 1 random = choices cs ?ps 1 random"
        using h by (simp add: diversity_weighted_random_select_def eq)
      have nonneg: "\<forall>w\<in>set ?ps. 0 \<le> w"
        using b Tpos by auto
      have pos: "0 < sum_list ?ps" by (simp only: sum1 zero_less_one)
      have len: "length ?ps = length cs" by simp
      from choices_single_draw [OF len ne nonneg pos, of random] h
      obtain i where "i < length cs" "choices cs ?ps 1 random = Inr [cs ! i]"
        "sum_list (take i ?ps) \<le> random 0 * sum_list ?ps"
        "random 0 * sum_list ?ps < sum_list (take (Suc i) ?ps)"
        by blast
      then have "i < length cs \<and> diversity_weighted_random_select cs 1 random = Inr [cs ! i]
           \<and> sum_list (take i ?ps) \<le> random 0 \<and> random 0 < sum_list (take (Suc i) ?ps)"
        by (simp only: sel sum1 mult_1_right simp_thms)
      then show "\<exists>i<length cs. diversity_weighted_random_select cs 1 random = Inr [cs ! i]
           \<and> sum_list (take i ?ps) \<le> random 0 \<and> random 0 < sum_list (take (Suc i) ?ps)"
        by blast
    qed
  qed
qed

theorem selector_probability_formula_witness:
  "[\<lparr>name = ''a'', score = 2\<rparr>, \<lparr>name = ''b'', score = 1\<rparr>, \<lparr>name = ''c'', score = 0\<rparr>] \<noteq> []
   \<and> (\<exists>ps. selection_probabilities
              [\<lparr>name = ''a'', score = 2\<rparr>, \<lparr>name = ''b'', score = 1\<rparr>, \<lparr>name = ''c'', score = 0\<rparr>]
            = Inr ps \<and> sum_list ps = 1 \<and> (1 / 10) / 3 \<le> ps ! 2)"
proof -
  let ?pool = "[\<lparr>name = ''a'', score = 2\<rparr>, \<lparr>name = ''b'', score = 1\<rparr>, \<lparr>name = ''c'', score = 0\<rparr>]"
  have h1: "?pool \<noteq> []" by simp
  have h2: "\<forall>c\<in>set ?pool. score (last ?pool) \<le> score c \<and> score c \<le> score (hd ?pool)"
    by simp
  from selector_probability_formula [OF h1 h2]
  obtain ps where "selection_probabilities ?pool = Inr ps" "sum_list ps = 1"
    "\<forall>i<length ?pool. (1 / 10) / real (length ?pool) \<le> ps ! i"
    by blast
  then have "selection_probabilities ?pool = Inr ps \<and> sum_list ps = 1 \<and> (1 / 10) / 3 \<le> ps ! 2"
    by simp
  then show ?thesis by blast
qed

text \<open>
  The formula of claim C1 as stated does not hold of the code: on the pool of scores 2, 1
  and 0 the code gives the first candidate the probability \<open>20/33\<close>, the formula
  \<open>\<epsilon>/K + (1 - \<epsilon>) \<sqdot> (score_i - min_score) / \<Sum>_j (score_j - min_score)\<close> gives \<open>19/30\<close>;
  the last candidate gets \<open>2/33\<close>, not \<open>1/30\<close>.
\<close>

theorem selector_spec_formula_counterexample:
  "selection_probabilities
     [\<lparr>name = ''a'', score = 2\<rparr>, \<lparr>name = ''b'', score = 1\<rparr>, \<lparr>name = ''c'', score = 0\<rparr>]
     = Inr [20 / 33, 1 / 3, 2 / 33]
   \<and> spec_selection_probability (1 / 10)
       [\<lparr>name = ''a'', score = 2\<rparr>, \<lparr>name = ''b'', score = 1\<rparr>, \<lparr>name = ''c'', score = 0\<rparr>] 0
     = 19 / 30
   \<and> spec_selection_probability (1 / 10)
       [\<lparr>name = ''a'', score = 2\<rparr>, \<lparr>name = ''b'', score = 1\<rparr>, \<lparr>name = ''c'', score = 0\<rparr>] 2
     = 1 / 30
   \<and> (20 / 33 :: real) \<noteq> 19 / 30"
  by (simp add: selection_probabilities_def unnormalized_probabilities_def normalize_def
      score_range_def base_prob_def score_bonus_def spec_selection_probability_def Let_def)



text \<open>
  Claim C6. A pool of exactly one candidate is returned as it is, whatever the random
  source, for the default \<open>k = 1\<close> and any larger \<open>k\<close>: no draw takes place.
\<close>

theorem single_candidate_always_returned:
  assumes "length cs = 1" and "1 \<le> k"
  shows "diversity_weighted_random_select cs k random = Inr cs"
  using assms by (simp add: diversity_weighted_random_select_def)

theorem single_candidate_always_returned_witness:
  "length [\<lparr>name = ''Negroni'', score = 3 / 4\<rparr>] = 1 \<and> (1::int) \<le> 1
   \<and> diversity_weighted_random_select [\<lparr>name = ''Negroni'', score = 3 / 4\<rparr>] 1 (\<lambda>j. 99 / 100)
       = Inr [\<lparr>name = ''Negroni'', score = 3 / 4\<rparr>]"
proof -
  have h1: "length [\<lparr>name = ''Negroni'', score = 3 / 4\<rparr>] = 1" by simp
  have h2: "(1::int) \<le> 1" by simp
  from single_candidate_always_returned [OF h1 h2, of "\<lambda>j. 99 / 100"] h1 h2
  show ?thesis by blast
qed

section \<open>Properties of the anti-universality penalty\<close>

text \<open>
  Claim C2. The penalty factor of a catalogue item depends only on the number of entries
  of its \<open>Need\<close> list whose lower-case form is in the common-need list: none gives 1,
  exactly one gives 0.9, two or more give 0.75. For an item whose need tags are lower-case
  and pairwise different, this number is the number of its need tags that are in the
  common-need set.
\<close>

theorem universality_penalty_by_common_count:
  "calculate_universality_penalty c =
     (if common_count c = 0 then 1 else if common_count c = 1 then 9 / 10 else 3 / 4)
   \<and> (common_count c = common_count c' \<longrightarrow>
        calculate_universality_penalty c = calculate_universality_penalty c')
   \<and> ((\<forall>t\<in>set (cocktail_needs c). lower t = t) \<and> distinct (cocktail_needs c) \<longrightarrow>
        common_count c = card (set (cocktail_needs c) \<inter> set COMMON_NEEDS))"
proof (intro conjI impI)
  show "calculate_universality_penalty c =
     (if common_count c = 0 then 1 else if common_count c = 1 then 9 / 10 else 3 / 4)"
    by (simp add: calculate_universality_penalty_def)
  show "calculate_universality_penalty c = calculate_universality_penalty c'"
    if "common_count c = common_count c'"
    using that by (simp add: calculate_universality_penalty_def)
  show "common_count c = card (set (cocktail_needs c) \<inter> set COMMON_NEEDS)"
    if h: "(\<forall>t\<in>set (cocktail_needs c). lower t = t) \<and> distinct (cocktail_needs c)"
  proof -
    have "filter (\<lambda>need. lower need \<in> set COMMON_NEEDS) (cocktail_needs c)
          = filter (\<lambda>need. need \<in> set COMMON_NEEDS) (cocktail_needs c)"
      using h by (intro filter_cong) simp_all
    then have "common_count c = card ({x. x \<in> set COMMON_NEEDS} \<inter> set (cocktail_needs c))"
      using h by (simp add: common_count_def distinct_length_filter)
    then show ?thesis by (simp add: Int_commute)
  qed
qed

theorem universality_penalty_by_common_count_witness:
  "calculate_universality_penalty
     \<lparr>Name = ''Cuba Libre'', Category = ''Highball'', Energy = 4, Tension = 2, Control = 3,
      Need = Some [''nostalgia'', ''comfort'', ''casual fun'']\<rparr> = 3 / 4
   \<and> calculate_universality_penalty
     \<lparr>Name = ''Hot Toddy'', Category = ''Hot'', Energy = 2, Tension = 1, Control = 3,
      Need = Some [''Comfort'', ''warmth'']\<rparr> = 9 / 10
   \<and> calculate_universality_penalty
     \<lparr>Name = ''Negroni'', Category = ''Aperitif'', Energy = 3, Tension = 4, Control = 4,
      Need = None\<rparr> = 1
   \<and> card (set (cocktail_needs
       \<lparr>Name = ''Cuba Libre'', Category = ''Highball'', Energy = 4, Tension = 2, Control = 3,
        Need = Some [''nostalgia'', ''comfort'', ''casual fun'']\<rparr>) \<inter> set COMMON_NEEDS) = 2"
proof -
  let ?c = "\<lparr>Name = ''Cuba Libre'', Category = ''Highball'', Energy = 4, Tension = 2, Control = 3,
      Need = Some [''nostalgia'', ''comfort'', ''casual fun'']\<rparr>"
  let ?h = "\<lparr>Name = ''Hot Toddy'', Category = ''Hot'', Energy = 2, Tension = 1, Control = 3,
      Need = Some [''Comfort'', ''warmth'']\<rparr>"
  let ?n = "\<lparr>Name = ''Negroni'', Category = ''Aperitif'', Energy = 3, Tension = 4, Control = 4,
      Need = None\<rparr>"
  have cc: "common_count ?c = 2" by code_simp
  have ch: "common_count ?h = 1" by code_simp
  have cn: "common_count ?n = 0" by code_simp
  have lc: "(\<forall>t\<in>set (cocktail_needs ?c). lower t = t) \<and> distinct (cocktail_needs ?c)"
    by code_simp
  from universality_penalty_by_common_count [of ?c ?c]
    universality_penalty_by_common_count [of ?h ?h]
    universality_penalty_by_common_count [of ?n ?n] cc ch cn lc
  show ?thesis by simp
qed

section \<open>Properties of the recommendation history\<close>

lemma evict_front_eq: "evict_front H xs = drop (length xs - H) xs"
proof (induction xs)
  case Nil
  then show ?case by simp
next
  case (Cons x xs)
  show ?case
  proof (cases "length (x # xs) > H")
    case True
    then have "length (x # xs) - H = Suc (length xs - H)" by simp
    with True Cons show ?thesis by simp
  next
    case False
    then show ?thesis by simp
  qed
qed

lemma session_history_record_selection:
  "session_history (record_selection H h sid x) sid
     = drop (length (session_history h sid @ [x]) - H) (session_history h sid @ [x])"
  by (simp add: record_selection_def session_history_def evict_front_eq)

lemma session_history_record_selection_other:
  "sid' \<noteq> sid \<Longrightarrow> session_history (record_selection H h sid x) sid' = session_history h sid'"
  by (simp add: record_selection_def session_history_def)

lemma evict_twice:
  "drop (length (drop (length xs - H) xs @ ys) - H) (drop (length xs - H) xs @ ys)
     = drop (length (xs @ ys) - H) (xs @ ys)"
proof -
  let ?d = "length xs - H"
  have a: "drop ?d xs @ ys = drop ?d (xs @ ys)" by simp
  have n: "length (drop ?d (xs @ ys)) - H + ?d = length (xs @ ys) - H" by simp
  have "drop (length (drop ?d (xs @ ys)) - H) (drop ?d (xs @ ys))
      = drop (length (drop ?d (xs @ ys)) - H + ?d) (xs @ ys)"
    by (rule drop_drop)
  then show ?thesis by (simp only: a n)
qed

lemma session_history_record_selections:
  assumes "length (session_history h sid) \<le> H"
  shows "session_history (record_selections H h sid chosen) sid
     = drop (length (session_history h sid @ chosen) - H) (session_history h sid @ chosen)"
  using assms
proof (induction chosen arbitrary: h)
  case Nil
  then show ?case by simp
next
  case (Cons x rest)
  let ?h1 = "record_selection H h sid x"
  let ?xs = "session_history h sid @ [x]"
  have s1: "session_history ?h1 sid = drop (length ?xs - H) ?xs"
    by (rule session_history_record_selection)
  then have b1: "length (session_history ?h1 sid) \<le> H" by simp
  have "session_history (record_selections H ?h1 sid rest) sid
      = drop (length (session_history ?h1 sid @ rest) - H) (session_history ?h1 sid @ rest)"
    by (rule Cons.IH [OF b1])
  also have "\<dots> = drop (length (?xs @ rest) - H) (?xs @ rest)"
    unfolding s1 by (rule evict_twice)
  finally show ?case by simp
qed

lemma slice_from_minus_pos:
  "0 < limit \<Longrightarrow> slice_from_minus xs limit = drop (length xs - nat limit) xs"
  by (auto simp: slice_from_minus_def Let_def max_def nat_diff_distrib' intro: arg_cong [where f = "\<lambda>n. drop n xs"])

text \<open>
  Claim C3. Starting from a session history within the bound \<open>H\<close> (the empty history of
  a fresh session, for one), after any run of selections the stored history has at most
  \<open>H\<close> entries: it is the last \<open>H\<close> entries of the old history followed by the
  selections, the oldest ones being dropped from the front, and it has exactly \<open>H\<close>
  entries after \<open>H\<close> selections or more, \<open>H + 5\<close> for one. Whatever is stored, the
  source's getter with a positive limit returns the last \<open>limit\<close> entries and no more.
\<close>

theorem session_history_bounded:
  assumes "length (session_history h sid) \<le> H"
  shows "length (session_history (record_selections H h sid chosen) sid) \<le> H
    \<and> session_history (record_selections H h sid chosen) sid
        = drop (length (session_history h sid @ chosen) - H) (session_history h sid @ chosen)
    \<and> (length chosen \<ge> H \<longrightarrow> length (session_history (record_selections H h sid chosen) sid) = H)
    \<and> (\<forall>h' limit. 0 < limit \<longrightarrow>
          length (get_recent_recommendations h' sid limit) \<le> nat limit
          \<and> get_recent_recommendations h' sid limit
              = drop (length (session_history h' sid) - nat limit) (session_history h' sid))"
proof -
  have eq: "session_history (record_selections H h sid chosen) sid
        = drop (length (session_history h sid @ chosen) - H) (session_history h sid @ chosen)"
    by (rule session_history_record_selections [OF assms])
  have g: "get_recent_recommendations h' sid limit
              = drop (length (session_history h' sid) - nat limit) (session_history h' sid)"
    if "0 < limit" for h' limit
    using that by (simp add: get_recent_recommendations_def session_history_def slice_from_minus_pos)
  have gl: "length (get_recent_recommendations h' sid limit) \<le> nat limit" if "0 < limit" for h' limit
    by (simp add: g [OF that])
  show ?thesis using eq g gl by simp
qed

theorem session_history_bounded_witness:
  "length (session_history Map.empty ''s1'') \<le> 10
   \<and> session_history
        (record_selections 10 Map.empty ''s1''
           [''a'', ''b'', ''c'', ''d'', ''e'', ''f'', ''g'', ''h'', ''i'', ''j'', ''k'', ''l'',
            ''m'', ''n'', ''o''])
        ''s1''
      = [''f'', ''g'', ''h'', ''i'', ''j'', ''k'', ''l'', ''m'', ''n'', ''o'']
   \<and> get_recent_recommendations
        [''s1'' \<mapsto> [''a'', ''b'', ''c'', ''d'', ''e'', ''f'', ''g'', ''h'', ''i'', ''j'', ''k'',
                     ''l'', ''m'', ''n'', ''o'']]
        ''s1'' 10
      = [''f'', ''g'', ''h'', ''i'', ''j'', ''k'', ''l'', ''m'', ''n'', ''o'']"
proof -
  have h: "length (session_history Map.empty ''s1'') \<le> 10"
    by (simp add: session_history_def)
  have p: "(0::int) < 10" by simp
  from session_history_bounded [OF h,
      of "[''a'', ''b'', ''c'', ''d'', ''e'', ''f'', ''g'', ''h'', ''i'', ''j'', ''k'', ''l'',
           ''m'', ''n'', ''o'']"] h p
  show ?thesis by (simp add: session_history_def)
qed

section \<open>Properties of the recency penalty\<close>

lemma position_from_None: "position_from p x ys = None \<longleftrightarrow> x \<notin> set ys"
  by (induction ys arbitrary: p) auto

lemma position_from_Some:
  "position_from p x ys = Some q \<Longrightarrow>
     p \<le> q \<and> q < p + length ys \<and> ys ! (q - p) = x \<and> (\<forall>j<q - p. ys ! j \<noteq> x)"
proof (induction ys arbitrary: p)
  case Nil
  then show ?case by simp
next
  case (Cons y ys)
  show ?case
  proof (cases "x = y")
    case True
    with Cons.prems show ?thesis by simp
  next
    case False
    with Cons.prems have r: "position_from (Suc p) x ys = Some q" by simp
    from Cons.IH [OF r] have ih: "Suc p \<le> q" "q < Suc p + length ys" "ys ! (q - Suc p) = x"
      "\<forall>j<q - Suc p. ys ! j \<noteq> x" by simp_all
    have qp: "q - p = Suc (q - Suc p)" using ih(1) by simp
    have "\<forall>j<q - p. (y # ys) ! j \<noteq> x"
    proof (intro allI impI)
      fix j assume "j < q - p"
      then show "(y # ys) ! j \<noteq> x"
        using False ih(4) qp by (cases j) auto
    qed
    then show ?thesis using ih qp by simp
  qed
qed

lemma most_recent_position_Some:
  assumes "most_recent_position history item = Some p"
  shows "1 \<le> p \<and> p \<le> length history \<and> history ! (length history - p) = item
     \<and> (\<forall>q. 1 \<le> q \<and> q < p \<longrightarrow> history ! (length history - q) \<noteq> item)"
proof -
  from assms have "position_from 1 item (rev history) = Some p"
    by (simp add: most_recent_position_def)
  from position_from_Some [OF this]
  have a: "1 \<le> p" "p < 1 + length history" "rev history ! (p - 1) = item"
    "\<forall>j<p - 1. rev history ! j \<noteq> item" by simp_all
  have b: "history ! (length history - p) = item"
    using a(1,2,3) by (simp add: rev_nth)
  have c: "history ! (length history - q) \<noteq> item" if "1 \<le> q" "q < p" for q
  proof -
    have "q - 1 < p - 1" using that by simp
    then have "rev history ! (q - 1) \<noteq> item" using a(4) by blast
    moreover have "q - 1 < length history" using that a(2) by simp
    ultimately show ?thesis using that by (simp add: rev_nth)
  qed
  show ?thesis using a b c by simp
qed

lemma recency_factor_at_value:
  assumes "0 < H" "1 \<le> p"
  shows "recency_factor_at H p = 1 - (1 / 2) * (real H - real p + 1) / real H"
proof -
  define X where "X = (1 / 2) * (real H - real p + 1) / real H"
  have Hpos: "0 < real H" using assms by simp
  have "real H - real p + 1 \<le> real H" using assms by simp
  then have "(1 / 2) * (real H - real p + 1) / real H \<le> (1 / 2) * real H / real H"
    by (intro divide_right_mono mult_left_mono) simp_all
  also have "\<dots> = 1 / 2" using Hpos by simp
  finally have "X \<le> 1 / 2" by (simp only: X_def)
  then have "1 / 2 \<le> 1 - X" by linarith
  then have "max (1 / 2) (1 - X) = 1 - X" by (rule max_absorb2)
  then show ?thesis by (simp only: recency_factor_at_def X_def)
qed

lemma recency_factor_at_strict_mono:
  assumes "0 < H" "1 \<le> p" "p < q"
  shows "recency_factor_at H p < recency_factor_at H q"
proof -
  define X where "X = (1 / 2) * (real H - real p + 1) / real H"
  define Y where "Y = (1 / 2) * (real H - real q + 1) / real H"
  have Hpos: "0 < real H" using assms by simp
  have "(1 / 2) * (real H - real q + 1) < (1 / 2) * (real H - real p + 1)"
    using assms by simp
  then have "Y < X" unfolding X_def Y_def using Hpos by (rule divide_strict_right_mono)
  moreover have "recency_factor_at H p = 1 - X"
    using recency_factor_at_value [OF assms(1,2)] by (simp only: X_def)
  moreover have "1 - Y \<le> recency_factor_at H q"
    by (simp only: recency_factor_at_def Y_def max.cobounded2)
  ultimately show ?thesis by linarith
qed

text \<open>
  Claim C4. For a history bound \<open>H > 0\<close>: the recency factor is 1 for an item absent
  from the history; for an item present it is \<open>max 0.5 (1 - 0.5 \<sqdot> (H - p + 1) / H)\<close>
  where \<open>p\<close> is the position of its last occurrence counted from the end, it is at least
  0.5, and below 1 when \<open>p \<le> H\<close>. The factor is 0.5 at \<open>p = 1\<close> and strictly
  increases with \<open>p\<close>: the more recent, the stronger the penalty.
\<close>

theorem recency_factor_spec:
  assumes "0 < H"
  shows "(item \<notin> set history \<longrightarrow> recency_factor H history item = 1)
    \<and> (item \<in> set history \<longrightarrow>
         (\<exists>p. most_recent_position history item = Some p
            \<and> 1 \<le> p \<and> p \<le> length history
            \<and> history ! (length history - p) = item
            \<and> (\<forall>q. 1 \<le> q \<and> q < p \<longrightarrow> history ! (length history - q) \<noteq> item)
            \<and> recency_factor H history item
                = max (1 / 2) (1 - (1 / 2) * (real H - real p + 1) / real H)
            \<and> 1 / 2 \<le> recency_factor H history item
            \<and> (p \<le> H \<longrightarrow> recency_factor H history item < 1)))
    \<and> recency_factor_at H 1 = 1 / 2
    \<and> (\<forall>p q. 1 \<le> p \<and> p < q \<longrightarrow> recency_factor_at H p < recency_factor_at H q)"
proof (intro conjI impI)
  show "recency_factor H history item = 1" if "item \<notin> set history"
    using that position_from_None [of 1 item "rev history"]
    by (simp add: recency_factor_def most_recent_position_def)
  show "\<exists>p. most_recent_position history item = Some p
            \<and> 1 \<le> p \<and> p \<le> length history
            \<and> history ! (length history - p) = item
            \<and> (\<forall>q. 1 \<le> q \<and> q < p \<longrightarrow> history ! (length history - q) \<noteq> item)
            \<and> recency_factor H history item
                = max (1 / 2) (1 - (1 / 2) * (real H - real p + 1) / real H)
            \<and> 1 / 2 \<le> recency_factor H history item
            \<and> (p \<le> H \<longrightarrow> recency_factor H history item < 1)"
    if "item \<in> set history"
  proof -
    from that obtain p where p: "most_recent_position history item = Some p"
      using position_from_None [of 1 item "rev history"]
      by (cases "most_recent_position history item") (auto simp: most_recent_position_def)
    note m = most_recent_position_Some [OF p]
    have f: "recency_factor H history item = recency_factor_at H p"
      by (simp add: recency_factor_def p)
    have lt: "recency_factor_at H p < 1" if "p \<le> H"
    proof -
      have "0 < (1 / 2) * (real H - real p + 1) / real H" using that assms by simp
      moreover have "recency_factor_at H p = 1 - (1 / 2) * (real H - real p + 1) / real H"
        using assms m by (intro recency_factor_at_value) simp_all
      ultimately show ?thesis by linarith
    qed
    show ?thesis
      using p m f lt by (intro exI [of _ p]) (simp add: recency_factor_at_def)
  qed
  show "recency_factor_at H 1 = 1 / 2"
    using assms by (simp add: recency_factor_at_value)
  show "\<forall>p q. 1 \<le> p \<and> p < q \<longrightarrow> recency_factor_at H p < recency_factor_at H q"
    using recency_factor_at_strict_mono [OF assms] by blast
qed

theorem recency_factor_spec_witness:
  "(0::nat) < 10
   \<and> recency_factor 10 [''Mojito'', ''Negroni'', ''Daiquiri'', ''Negroni''] ''Margarita'' = 1
   \<and> recency_factor 10 [''Mojito'', ''Negroni'', ''Daiquiri'', ''Negroni''] ''Negroni'' = 1 / 2
   \<and> recency_factor 10 [''Mojito'', ''Negroni'', ''Daiquiri'', ''Negroni''] ''Mojito'' = 13 / 20
   \<and> recency_factor_at 10 1 < recency_factor_at 10 4"
proof -
  let ?hist = "[''Mojito'', ''Negroni'', ''Daiquiri'', ''Negroni'']"
  have h: "(0::nat) < 10" by simp
  have a: "''Margarita'' \<notin> set ?hist" by simp
  have n: "recency_factor 10 ?hist ''Negroni'' = 1 / 2" by code_simp
  have m: "recency_factor 10 ?hist ''Mojito'' = 13 / 20" by code_simp
  from recency_factor_spec [OF h, of "''Margarita''" ?hist]
  have "recency_factor 10 ?hist ''Margarita'' = 1
        \<and> (\<forall>p q. 1 \<le> p \<and> p < q \<longrightarrow> recency_factor_at 10 p < recency_factor_at 10 q)"
    using a by blast
  then have "recency_factor 10 ?hist ''Margarita'' = 1"
    and "recency_factor_at 10 1 < recency_factor_at 10 4" by simp_all
  then show ?thesis using h n m by blast
qed

section \<open>Properties of the scoring engine\<close>

lemma sum_of_squares_nonneg: "0 \<le> sum_of_squares p c"
  by (simp add: sum_of_squares_def)

lemma dimension_score_eq: "dimension_score p c = Inr (1 / (1 + sum_of_squares p c))"
proof -
  have "1 + sum_of_squares p c \<noteq> 0" using sum_of_squares_nonneg [of p c] by linarith
  then show ?thesis by (simp add: dimension_score_def checked_div_def)
qed

lemma need_score_eq:
  "need_score p c = Inr (real (card (needs p \<inter> set (cocktail_needs c)))
                          / real (max 1 (card (set (cocktail_needs c)))))"
  by (simp add: need_score_def checked_div_def)

lemma need_score_range:
  "0 \<le> real (card (needs p \<inter> set (cocktail_needs c))) / real (max 1 (card (set (cocktail_needs c))))
   \<and> real (card (needs p \<inter> set (cocktail_needs c))) / real (max 1 (card (set (cocktail_needs c)))) \<le> 1"
proof -
  have "card (needs p \<inter> set (cocktail_needs c)) \<le> card (set (cocktail_needs c))"
    by (intro card_mono) auto
  then have "card (needs p \<inter> set (cocktail_needs c)) \<le> max 1 (card (set (cocktail_needs c)))"
    by simp
  then have "real (card (needs p \<inter> set (cocktail_needs c))) \<le> real (max 1 (card (set (cocktail_needs c))))"
    by (simp only: of_nat_le_iff)
  moreover have "0 < real (max 1 (card (set (cocktail_needs c))))" by simp
  ultimately show ?thesis by (simp add: divide_le_eq)
qed

lemma raw_score_eq:
  "raw_score cfg p c =
     Inr (w_dim cfg * (1 / (1 + sum_of_squares p c))
          + w_need cfg * (real (card (needs p \<inter> set (cocktail_needs c)))
                           / real (max 1 (card (set (cocktail_needs c))))))"
  by (simp add: raw_score_def dimension_score_eq need_score_eq)

lemma dimension_score_antitone:
  assumes "sum_of_squares p c < sum_of_squares p' c"
  shows "1 / (1 + sum_of_squares p' c) < 1 / (1 + sum_of_squares p c)"
proof -
  have "0 < 1 + sum_of_squares p c" using sum_of_squares_nonneg [of p c] by linarith
  then show ?thesis using assms by (simp add: frac_less2)
qed

lemma square_gap_mono:
  fixes a x y :: real
  assumes "a \<le> x" "x < y"
  shows "(x - a)\<^sup>2 < (y - a)\<^sup>2"
proof -
  have "0 \<le> x - a" "x - a < y - a" using assms by simp_all
  then show ?thesis by (simp add: power_strict_mono)
qed

text \<open>
  Claim C8. Scoring never fails, whatever the profile: the dimension score is
  \<open>1 / (1 + sum_of_squares)\<close>, in \<open>(0, 1]\<close>, the need score is in \<open>[0, 1]\<close>, and the
  raw score is a number. With an empty needs set the need score is 0 and the raw score is
  the weighted dimension score. Dimension values are not clamped: moving a profile's value
  further away from the item's, also beyond 5, strictly lowers the dimension score.
\<close>

theorem scoring_accepts_any_profile:
  "dimension_score p c = Inr (1 / (1 + sum_of_squares p c))
   \<and> 0 < 1 / (1 + sum_of_squares p c) \<and> 1 / (1 + sum_of_squares p c) \<le> 1
   \<and> (\<exists>n. need_score p c = Inr n \<and> 0 \<le> n \<and> n \<le> 1)
   \<and> (\<exists>s. raw_score cfg p c = Inr s)
   \<and> (needs p = {} \<longrightarrow>
         need_score p c = Inr 0
         \<and> raw_score cfg p c = Inr (w_dim cfg * (1 / (1 + sum_of_squares p c))))
   \<and> (\<forall>x y. Energy c \<le> x \<and> x < y \<longrightarrow>
         (\<exists>dx dy. dimension_score (p\<lparr>energy := x\<rparr>) c = Inr dx
                \<and> dimension_score (p\<lparr>energy := y\<rparr>) c = Inr dy \<and> dy < dx))
   \<and> (\<forall>x y. Tension c \<le> x \<and> x < y \<longrightarrow>
         (\<exists>dx dy. dimension_score (p\<lparr>tension := x\<rparr>) c = Inr dx
                \<and> dimension_score (p\<lparr>tension := y\<rparr>) c = Inr dy \<and> dy < dx))
   \<and> (\<forall>x y. Control c \<le> x \<and> x < y \<longrightarrow>
         (\<exists>dx dy. dimension_score (p\<lparr>control := x\<rparr>) c = Inr dx
                \<and> dimension_score (p\<lparr>control := y\<rparr>) c = Inr dy \<and> dy < dx))"
proof (intro conjI allI impI)
  have pos: "0 < 1 + sum_of_squares p c" and ge: "1 \<le> 1 + sum_of_squares p c"
    using sum_of_squares_nonneg [of p c] by linarith+
  show "dimension_score p c = Inr (1 / (1 + sum_of_squares p c))" by (rule dimension_score_eq)
  show "0 < 1 / (1 + sum_of_squares p c)" using pos by simp
  show "1 / (1 + sum_of_squares p c) \<le> 1" using ge pos by (simp add: divide_le_eq)
  show "\<exists>n. need_score p c = Inr n \<and> 0 \<le> n \<and> n \<le> 1"
    using need_score_eq [of p c] need_score_range [of p c] by blast
  show "\<exists>s. raw_score cfg p c = Inr s" using raw_score_eq [of cfg p c] by blast
  show "need_score p c = Inr 0" if "needs p = {}"
    using that by (simp add: need_score_eq)
  show "raw_score cfg p c = Inr (w_dim cfg * (1 / (1 + sum_of_squares p c)))" if "needs p = {}"
    using that by (simp add: raw_score_eq)
next
  fix x y assume h: "Energy c \<le> x \<and> x < y"
  have "sum_of_squares (p\<lparr>energy := x\<rparr>) c < sum_of_squares (p\<lparr>energy := y\<rparr>) c"
    using square_gap_mono [of "Energy c" x y] h by (simp add: sum_of_squares_def)
  from dimension_score_antitone [OF this]
  show "\<exists>dx dy. dimension_score (p\<lparr>energy := x\<rparr>) c = Inr dx
                \<and> dimension_score (p\<lparr>energy := y\<rparr>) c = Inr dy \<and> dy < dx"
    by (simp only: dimension_score_eq) blast
next
  fix x y assume h: "Tension c \<le> x \<and> x < y"
  have "sum_of_squares (p\<lparr>tension := x\<rparr>) c < sum_of_squares (p\<lparr>tension := y\<rparr>) c"
    using square_gap_mono [of "Tension c" x y] h by (simp add: sum_of_squares_def)
  from dimension_score_antitone [OF this]
  show "\<exists>dx dy. dimension_score (p\<lparr>tension := x\<rparr>) c = Inr dx
                \<and> dimension_score (p\<lparr>tension := y\<rparr>) c = Inr dy \<and> dy < dx"
    by (simp only: dimension_score_eq) blast
next
  fix x y assume h: "Control c \<le> x \<and> x < y"
  have "sum_of_squares (p\<lparr>control := x\<rparr>) c < sum_of_squares (p\<lparr>control := y\<rparr>) c"
    using square_gap_mono [of "Control c" x y] h by (simp add: sum_of_squares_def)
  from dimension_score_antitone [OF this]
  show "\<exists>dx dy. dimension_score (p\<lparr>control := x\<rparr>) c = Inr dx
                \<and> dimension_score (p\<lparr>control := y\<rparr>) c = Inr dy \<and> dy < dx"
    by (simp only: dimension_score_eq) blast
qed

theorem scoring_accepts_any_profile_witness:
  "needs \<lparr>energy = 7, tension = 1, control = 3, needs = {}\<rparr> = {}
   \<and> need_score \<lparr>energy = 7, tension = 1, control = 3, needs = {}\<rparr>
        \<lparr>Name = ''A'', Category = ''Tiki'', Energy = 5, Tension = 1, Control = 3,
         Need = Some [''energy'', ''adventure'']\<rparr> = Inr 0
   \<and> raw_score default_config \<lparr>energy = 7, tension = 1, control = 3, needs = {}\<rparr>
        \<lparr>Name = ''A'', Category = ''Tiki'', Energy = 5, Tension = 1, Control = 3,
         Need = Some [''energy'', ''adventure'']\<rparr> = Inr (3 / 25)"
proof -
  let ?p = "\<lparr>energy = 7, tension = 1, control = 3, needs = {}\<rparr>"
  let ?c = "\<lparr>Name = ''A'', Category = ''Tiki'', Energy = 5, Tension = 1, Control = 3,
         Need = Some [''energy'', ''adventure'']\<rparr>"
  have h: "needs ?p = {}" by simp
  from scoring_accepts_any_profile [of ?p ?c default_config] h
  have "need_score ?p ?c = Inr 0"
    and "raw_score default_config ?p ?c
           = Inr (w_dim default_config * (1 / (1 + sum_of_squares ?p ?c)))"
    by blast+
  then show ?thesis using h by (simp add: default_config_def sum_of_squares_def)
qed

section \<open>Properties of the result card\<close>

text \<open>
  Claim C9, as amended. The card image URL is the first truthy value among
  \<open>layout.final_card_url\<close>, \<open>layout.ink_style_image_url\<close>,
  \<open>presentation.final_presentation_image_url\<close> and \<open>presentation.cocktail_image_url\<close>,
  in this order, and the empty string if none is. The download button is disabled exactly
  when the chain yields the empty string or a download is in progress; when no download is
  in progress, exactly when the chain yields the empty string. The handler's "not ready"
  alert is raised exactly when the chain yields the empty string.
\<close>

theorem card_image_url_fallback:
  "cardImageUrl r =
     (if truthy (optional_get (layout r) ''final_card_url'')
        then optional_get (layout r) ''final_card_url''
      else if truthy (optional_get (layout r) ''ink_style_image_url'')
        then optional_get (layout r) ''ink_style_image_url''
      else if truthy (optional_get (presentation r) ''final_presentation_image_url'')
        then optional_get (presentation r) ''final_presentation_image_url''
      else if truthy (optional_get (presentation r) ''cocktail_image_url'')
        then optional_get (presentation r) ''cocktail_image_url''
      else JString [])
   \<and> (download_disabled isDownloading r \<longleftrightarrow> isDownloading \<or> cardImageUrl r = JString [])
   \<and> (\<not> isDownloading \<longrightarrow> (download_disabled isDownloading r \<longleftrightarrow> cardImageUrl r = JString []))
   \<and> (handleDownload isDownloading r = AlertNotReady \<longleftrightarrow> cardImageUrl r = JString [])"
  by (auto simp: cardImageUrl_def js_or_def download_disabled_def handleDownload_def)

theorem card_image_url_fallback_witness:
  "cardImageUrl \<lparr>presentation = JObject [(''cocktail_image_url'', JString ''/c.png'')],
                 layout = JObject [(''final_card_url'', JNull),
                                   (''ink_style_image_url'', JString ''/ink.png'')]\<rparr>
     = JString ''/ink.png''
   \<and> \<not> download_disabled False
         \<lparr>presentation = JObject [(''cocktail_image_url'', JString ''/c.png'')],
          layout = JObject [(''final_card_url'', JNull),
                            (''ink_style_image_url'', JString ''/ink.png'')]\<rparr>
   \<and> download_disabled False \<lparr>presentation = JUndefined, layout = JNull\<rparr>"
  using card_image_url_fallback
          [of "\<lparr>presentation = JObject [(''cocktail_image_url'', JString ''/c.png'')],
                layout = JObject [(''final_card_url'', JNull),
                                  (''ink_style_image_url'', JString ''/ink.png'')]\<rparr>" False]
        card_image_url_fallback [of "\<lparr>presentation = JUndefined, layout = JNull\<rparr>" False]
  by simp

text \<open>
  Claim C9 as stated fails while a download is in progress: the button is disabled although
  the chain yields a non-empty URL.
\<close>

theorem download_disabled_counterexample:
  "download_disabled True
     \<lparr>presentation = JNull, layout = JObject [(''final_card_url'', JString ''/card.png'')]\<rparr>
   \<and> cardImageUrl
       \<lparr>presentation = JNull, layout = JObject [(''final_card_url'', JString ''/card.png'')]\<rparr>
     = JString ''/card.png''
   \<and> JString ''/card.png'' \<noteq> JString []"
  by (simp add: download_disabled_def cardImageUrl_def js_or_def)

section \<open>Properties of the input screen\<close>

lemma trim_empty_iff: "trim s = [] \<longleftrightarrow> (\<forall>c\<in>set s. is_whitespace c)"
proof -
  let ?d = "dropWhile is_whitespace s"
  have "trim s = [] \<longleftrightarrow> (\<forall>x\<in>set ?d. is_whitespace x)"
    by (simp add: trim_def)
  also have "\<dots> \<longleftrightarrow> ?d = []"
  proof
    assume a: "\<forall>x\<in>set ?d. is_whitespace x"
    show "?d = []"
    proof (rule ccontr)
      assume ne: "?d \<noteq> []"
      then have "\<not> is_whitespace (hd ?d)" by (rule hd_dropWhile)
      moreover have "hd ?d \<in> set ?d" using ne by simp
      ultimately show False using a by blast
    qed
  next
    assume "?d = []"
    then show "\<forall>x\<in>set ?d. is_whitespace x" by (auto dest: set_dropWhileD)
  qed
  also have "\<dots> \<longleftrightarrow> (\<forall>c\<in>set s. is_whitespace c)" by simp
  finally show ?thesis .
qed

text \<open>
  Claim C10. In a render in which the submit button is enabled, \<open>handleSubmit\<close> takes
  neither validation-failure branch: in voice mode there is a recording and the recorder
  has stopped, and the recording is uploaded; in text mode the text has a character that is
  not white space, and the text is sent.
\<close>

theorem submit_validation_unreachable:
  assumes "\<not> submit_disabled s"
  shows "handleSubmit s \<noteq> AlertRecordFirst \<and> handleSubmit s \<noteq> AlertEnterStory
    \<and> (inputMode s = Voice \<longrightarrow>
          (\<exists>b. audioBlob s = Some b \<and> handleSubmit s = UploadAudio b) \<and> \<not> isRecording s)
    \<and> (inputMode s = Text \<longrightarrow>
          (\<exists>c\<in>set (textInput s). \<not> is_whitespace c)
          \<and> handleSubmit s = ProcessStoryText (textInput s))"
  using assms trim_empty_iff [of "textInput s"]
  by (cases "inputMode s")
     (auto simp: submit_disabled_def canSubmit_def handleSubmit_def split: option.splits)

theorem submit_validation_unreachable_witness:
  "\<not> submit_disabled \<lparr>isRecording = False, audioBlob = Some (Blob [26, 69, 223, 163]),
                       isUploading = False, inputMode = Voice, textInput = []\<rparr>
   \<and> handleSubmit \<lparr>isRecording = False, audioBlob = Some (Blob [26, 69, 223, 163]),
                    isUploading = False, inputMode = Voice, textInput = []\<rparr>
       = UploadAudio (Blob [26, 69, 223, 163])
   \<and> \<not> submit_disabled \<lparr>isRecording = False, audioBlob = None, isUploading = False,
                       inputMode = Text, textInput = code_units '' tired but happy''\<rparr>
   \<and> handleSubmit \<lparr>isRecording = False, audioBlob = None, isUploading = False,
                    inputMode = Text, textInput = code_units '' tired but happy''\<rparr>
       = ProcessStoryText (code_units '' tired but happy'')
   \<and> submit_disabled \<lparr>isRecording = False, audioBlob = None, isUploading = False,
                      inputMode = Text, textInput = [0xA0, 0x3000, 0x0A]\<rparr>"
proof -
  let ?v = "\<lparr>isRecording = False, audioBlob = Some (Blob [26, 69, 223, 163]),
             isUploading = False, inputMode = Voice, textInput = []\<rparr>"
  let ?t = "\<lparr>isRecording = False, audioBlob = None, isUploading = False,
             inputMode = Text, textInput = code_units '' tired but happy''\<rparr>"
  let ?w = "\<lparr>isRecording = False, audioBlob = None, isUploading = False,
             inputMode = Text, textInput = [0xA0, 0x3000, 0x0A]\<rparr>"
  have hv: "\<not> submit_disabled ?v"
    by (simp add: submit_disabled_def canSubmit_def)
  have ht: "\<not> submit_disabled ?t"
    by (simp add: submit_disabled_def canSubmit_def trim_def is_whitespace_def code_units_def)
  have hw: "submit_disabled ?w"
    by (simp add: submit_disabled_def canSubmit_def trim_def is_whitespace_def)
  from submit_validation_unreachable [OF hv] submit_validation_unreachable [OF ht] hv ht hw
  show ?thesis by simp
qed

end
